theory Spec2Isabelle
  imports Complex_Main "HOL-Library.AList"
begin

section \<open>Go error values\<close>

text \<open>
  A Go \<^verbatim>\<open>error\<close> is \<open>go_error option\<close>, with \<open>None\<close> for \<^verbatim>\<open>nil\<close>.
  \<^item> \<open>Foreign nf m\<close> is an error value made outside this repository (the SDK client, the
    transport, the terminal widgets): \<open>m\<close> is its \<^verbatim>\<open>Error()\<close> text and \<open>nf\<close> is the
    answer of the SDK's \<^verbatim>\<open>phenostore.IsNotFound\<close> on it;
  \<^item> \<open>Plain m\<close> is \<^verbatim>\<open>fmt.Errorf\<close> with no \<^verbatim>\<open>%w\<close> verb;
  \<^item> \<open>Wrap p e\<close> is \<^verbatim>\<open>fmt.Errorf(p + "%w", e)\<close>: the text is \<open>p\<close> followed by the text of
    \<open>e\<close>, and \<^verbatim>\<open>Unwrap\<close> gives \<open>e\<close> back.
\<close>

datatype go_error =
    Foreign bool string
  | Plain string
  | Wrap string go_error

fun Error :: "go_error \<Rightarrow> string" where
  "Error (Foreign nf m) = m"
| "Error (Plain m) = m"
| "Error (Wrap p e) = p @ Error e"

fun Unwrap :: "go_error \<Rightarrow> go_error option" where
  "Unwrap (Wrap p e) = Some e"
| "Unwrap e = None"

text \<open>
  \<^verbatim>\<open>phenostore.IsNotFound\<close> belongs to the SDK, not to this repository. It is false of
  \<^verbatim>\<open>nil\<close>, reads the kind of an SDK error, and looks through \<^verbatim>\<open>%w\<close> wrappers the way
  \<^verbatim>\<open>errors.As\<close> does.
\<close>

fun is_not_found :: "go_error \<Rightarrow> bool" where
  "is_not_found (Foreign nf m) = nf"
| "is_not_found (Plain m) = False"
| "is_not_found (Wrap p e) = is_not_found e"

definition IsNotFound :: "go_error option \<Rightarrow> bool" where
  "IsNotFound err = (case err of None \<Rightarrow> False | Some e \<Rightarrow> is_not_found e)"

text \<open>\<^verbatim>\<open>errors.Is(err, target)\<close>: some error of the \<^verbatim>\<open>Unwrap\<close> chain equals the target.\<close>

fun chain_has :: "go_error \<Rightarrow> go_error \<Rightarrow> bool" where
  "chain_has (Wrap p e) t = (Wrap p e = t \<or> chain_has e t)"
| "chain_has e t = (e = t)"

definition errors_Is :: "go_error option \<Rightarrow> go_error \<Rightarrow> bool" where
  "errors_Is err t = (case err of None \<Rightarrow> False | Some e \<Rightarrow> chain_has e t)"

text \<open>\<^verbatim>\<open>huh.ErrUserAborted\<close>, the sentinel of the prompt library.\<close>

definition ErrUserAborted :: go_error where
  "ErrUserAborted = Foreign False ''user aborted''"

definition isAbort :: "go_error option \<Rightarrow> bool" where
  "isAbort err = errors_Is err ErrUserAborted"


section \<open>Formatting numbers\<close>

text \<open>Decimal digits of a number, as \<^verbatim>\<open>%d\<close> prints it.\<close>

fun digit_char :: "nat \<Rightarrow> char" where
  "digit_char n = char_of (48 + n)"

function show_nat :: "nat \<Rightarrow> string" where
  "show_nat n = (if n < 10 then [digit_char n] else show_nat (n div 10) @ [digit_char (n mod 10)])"
  by pat_completeness auto
termination
  by (relation "measure (\<lambda>n. n)") auto


section \<open>Searching the resources of one patient\<close>

type_synonym RawMessage = string

text \<open>
  A \<^verbatim>\<open>gen.Bundle\<close> as far as \<^verbatim>\<open>extractResources\<close> reads it: the entry list may be \<^verbatim>\<open>nil\<close>,
  and so may the resource of an entry.
\<close>

type_synonym Bundle = "RawMessage option list option"

fun extractResources :: "Bundle \<Rightarrow> RawMessage list" where
  "extractResources None = []"
| "extractResources (Some entries) = concat (map (\<lambda>r. case r of None \<Rightarrow> [] | Some x \<Rightarrow> [x]) entries)"

text \<open>
  What \<^verbatim>\<open>SearchResourcesWithResponse\<close> gave: an error, or a response with its status
  code and the result of \<^verbatim>\<open>json.Unmarshal\<close> on its body.
\<close>

datatype search_response =
    CallFailed go_error
  | Responded nat "go_error + Bundle"

fun searchByPatient :: "string \<Rightarrow> search_response \<Rightarrow> RawMessage list \<times> go_error option" where
  "searchByPatient resourceType (CallFailed err) =
     ([], Some (Wrap (''searching '' @ resourceType @ '': '') err))"
| "searchByPatient resourceType (Responded code body) =
     (if code \<ge> 400
      then ([], Some (Plain (''search '' @ resourceType @ '' failed: HTTP '' @ show_nat code)))
      else (case body of
              Inl err \<Rightarrow> ([], Some (Wrap (''parsing '' @ resourceType @ '' response: '') err))
            | Inr bundle \<Rightarrow> (extractResources bundle, None)))"


section \<open>The patient summary: four reads, one join, one error\<close>

text \<open>
  The variables the closures of \<^verbatim>\<open>PatientSummary\<close> share: the four result slots, the
  four error slots, and the two variables the action writes after the join. A \<^verbatim>\<open>nil\<close>
  slice is the empty list, a \<^verbatim>\<open>time.Duration\<close> is an integer count of nanoseconds.
\<close>

record summary_vars =
  patient :: RawMessage
  observations :: "RawMessage list"
  conditions :: "RawMessage list"
  plans :: "RawMessage list"
  apiErr :: "go_error option"
  elapsed :: int
  patientErr :: "go_error option"
  observationsErr :: "go_error option"
  conditionsErr :: "go_error option"
  plansErr :: "go_error option"

definition init_vars :: summary_vars where
  "init_vars = \<lparr> patient = [], observations = [], conditions = [], plans = [],
                 apiErr = None, elapsed = 0,
                 patientErr = None, observationsErr = None,
                 conditionsErr = None, plansErr = None \<rparr>"

text \<open>
  What the four calls give back, each a Go pair of a value and an error:
  \<^verbatim>\<open>a.Client.ReadResource(ctx, "Patient", patientID)\<close> and the three
  \<^verbatim>\<open>a.searchByPatient(ctx, ..., patientID)\<close>.
\<close>

record calls =
  readPatient :: "RawMessage \<times> go_error option"
  searchObservations :: "RawMessage list \<times> go_error option"
  searchConditions :: "RawMessage list \<times> go_error option"
  searchPlans :: "RawMessage list \<times> go_error option"

text \<open>The bodies of the four goroutines, each as an update of the shared variables.\<close>

definition task_patient :: "calls \<Rightarrow> summary_vars \<Rightarrow> summary_vars" where
  "task_patient c v =
     (let v1 = v\<lparr>patient := fst (readPatient c)\<rparr>
      in if snd (readPatient c) \<noteq> None then v1\<lparr>patientErr := snd (readPatient c)\<rparr> else v1)"

definition task_observations :: "calls \<Rightarrow> summary_vars \<Rightarrow> summary_vars" where
  "task_observations c v =
     v\<lparr>observations := fst (searchObservations c), observationsErr := snd (searchObservations c)\<rparr>"

definition task_conditions :: "calls \<Rightarrow> summary_vars \<Rightarrow> summary_vars" where
  "task_conditions c v =
     v\<lparr>conditions := fst (searchConditions c), conditionsErr := snd (searchConditions c)\<rparr>"

definition task_plans :: "calls \<Rightarrow> summary_vars \<Rightarrow> summary_vars" where
  "task_plans c v =
     v\<lparr>plans := fst (searchPlans c), plansErr := snd (searchPlans c)\<rparr>"

text \<open>
  The code after \<^verbatim>\<open>wg.Wait()\<close>: the elapsed time is stored, then the first error in the
  fixed order patient, observations, conditions, care plans becomes \<^verbatim>\<open>apiErr\<close>.
\<close>

definition resolve :: "string \<Rightarrow> int \<Rightarrow> summary_vars \<Rightarrow> summary_vars" where
  "resolve patientID d v0 =
     (let v = v0\<lparr>elapsed := d\<rparr>
      in if IsNotFound (patientErr v)
         then v\<lparr>apiErr := Some (Plain (''patient '' @ patientID @ '' not found''))\<rparr>
         else
           (case patientErr v of
              Some e \<Rightarrow> v\<lparr>apiErr := Some (Wrap ''reading patient: '' e)\<rparr>
            | None \<Rightarrow>
           (case observationsErr v of
              Some e \<Rightarrow> v\<lparr>apiErr := Some (Wrap ''loading observations: '' e)\<rparr>
            | None \<Rightarrow>
           (case conditionsErr v of
              Some e \<Rightarrow> v\<lparr>apiErr := Some (Wrap ''loading conditions: '' e)\<rparr>
            | None \<Rightarrow>
           (case plansErr v of
              Some e \<Rightarrow> v\<lparr>apiErr := Some (Wrap ''loading care plans: '' e)\<rparr>
            | None \<Rightarrow> v)))))"

text \<open>
  The whole action given to the spinner, with the two clock readings as inputs:
  \<open>t0\<close> is \<^verbatim>\<open>time.Now()\<close> at the start, \<open>t1\<close> the clock when \<^verbatim>\<open>time.Since\<close> is called.
  The four tasks are run here in their textual order; \<open>exec_event\<close> below lets them
  finish in any order.
\<close>

definition fetchAction :: "string \<Rightarrow> int \<Rightarrow> int \<Rightarrow> calls \<Rightarrow> summary_vars" where
  "fetchAction patientID t0 t1 c =
     resolve patientID (t1 - t0)
       (task_plans c (task_conditions c (task_observations c (task_patient c init_vars))))"

text \<open>What the operator gets to see when \<^verbatim>\<open>PatientSummary\<close> returns.\<close>

datatype screen =
    Silent
  | ErrorShown go_error
  | SummaryShown RawMessage "RawMessage list" "RawMessage list" "RawMessage list" nat int

text \<open>
  The code after the spinner has returned: \<open>spinErr\<close> is the spinner's own error.
  On success \<^verbatim>\<open>fhir.PrintSummary\<close> receives the four slots in the order patient,
  observations, conditions, plans, and \<^verbatim>\<open>showTiming\<close> the count and the elapsed time.
\<close>

definition deliver :: "go_error option \<Rightarrow> summary_vars \<Rightarrow> screen" where
  "deliver spinErr v =
     (case spinErr of
        Some e \<Rightarrow> ErrorShown e
      | None \<Rightarrow>
          (case apiErr v of
             Some e \<Rightarrow> ErrorShown e
           | None \<Rightarrow>
               SummaryShown (patient v) (observations v) (conditions v) (plans v)
                 (length (observations v) + length (conditions v) + length (plans v) + 1)
                 (elapsed v)))"

text \<open>
  \<^verbatim>\<open>PatientSummary\<close> from its first line: \<open>pick\<close> is what \<^verbatim>\<open>a.PickPatient()\<close> returned.
\<close>

definition PatientSummary ::
  "string \<times> go_error option \<Rightarrow> go_error option \<Rightarrow> int \<Rightarrow> int \<Rightarrow> calls \<Rightarrow> screen" where
  "PatientSummary pick spinErr t0 t1 c =
     (case pick of (patientID, err) \<Rightarrow>
        if err \<noteq> None \<or> patientID = []
        then (if err \<noteq> None \<and> \<not> isAbort err then ErrorShown (the err) else Silent)
        else deliver spinErr (fetchAction patientID t0 t1 c))"

text \<open>A task has failed when its call returned a non-nil error.\<close>

definition all_succeed :: "calls \<Rightarrow> bool" where
  "all_succeed c \<longleftrightarrow>
     snd (readPatient c) = None \<and> snd (searchObservations c) = None \<and>
     snd (searchConditions c) = None \<and> snd (searchPlans c) = None"



subsection \<open>The tasks in priority order\<close>

datatype task = TPatient | TObservations | TConditions | TPlans

definition task_order :: "task list" where
  "task_order = [TPatient, TObservations, TConditions, TPlans]"

fun task_err :: "calls \<Rightarrow> task \<Rightarrow> go_error option" where
  "task_err c TPatient = snd (readPatient c)"
| "task_err c TObservations = snd (searchObservations c)"
| "task_err c TConditions = snd (searchConditions c)"
| "task_err c TPlans = snd (searchPlans c)"

text \<open>The text each task is named by in the message built for its failure.\<close>

fun task_label :: "task \<Rightarrow> string" where
  "task_label TPatient = ''reading patient: ''"
| "task_label TObservations = ''loading observations: ''"
| "task_label TConditions = ''loading conditions: ''"
| "task_label TPlans = ''loading care plans: ''"

text \<open>The failed task of highest priority: the first one in task order with an error.\<close>

definition first_failed :: "calls \<Rightarrow> task option" where
  "first_failed c = find (\<lambda>t. task_err c t \<noteq> None) task_order"

text \<open>
  The error of the first failed task wrapped with its label, as in
  \<^verbatim>\<open>"loading observations: <underlying>"\<close>, for every task alike.
\<close>

definition wrapped_first_failure :: "calls \<Rightarrow> go_error option" where
  "wrapped_first_failure c =
     (case first_failed c of
        None \<Rightarrow> None
      | Some t \<Rightarrow> map_option (Wrap (task_label t)) (task_err c t))"

text \<open>The domain message for a patient that does not exist.\<close>

definition not_found_error :: "string \<Rightarrow> go_error" where
  "not_found_error patientID = Plain (''patient '' @ patientID @ '' not found'')"

text \<open>
  The same selection with the one exception the code makes: a patient read that failed
  with a not-found error is reworded.
\<close>

definition surfaced :: "string \<Rightarrow> task \<Rightarrow> go_error \<Rightarrow> go_error" where
  "surfaced patientID t e =
     (if t = TPatient \<and> is_not_found e then not_found_error patientID
      else Wrap (task_label t) e)"


subsection \<open>The goroutines and the wait group, step by step\<close>

text \<open>
  The action as a transition system. The main goroutine adds four to the wait group,
  starts the four goroutines one after the other, and blocks in \<^verbatim>\<open>wg.Wait()\<close> until the
  counter is zero. A started goroutine finishes at any moment: it stores what its call
  returned and, by its deferred \<^verbatim>\<open>wg.Done()\<close>, takes one off the counter.
\<close>

datatype task_state = NotStarted | Running | Finished

datatype main_pc = AtAdd | AtGo nat | AtWait | Resolved

record config =
  vars :: summary_vars
  status :: "task \<Rightarrow> task_state"
  wg :: int
  pc :: main_pc

definition init_config :: config where
  "init_config = \<lparr> vars = init_vars, status = (\<lambda>t. NotStarted), wg = 0, pc = AtAdd \<rparr>"

datatype event = Add | Go | Finish task | Wait

fun run_task :: "task \<Rightarrow> calls \<Rightarrow> summary_vars \<Rightarrow> summary_vars" where
  "run_task TPatient = task_patient"
| "run_task TObservations = task_observations"
| "run_task TConditions = task_conditions"
| "run_task TPlans = task_plans"

text \<open>
  One step; \<open>None\<close> when the event cannot happen in this configuration. \<open>d\<close> is the
  duration \<^verbatim>\<open>time.Since(start)\<close> reads after the join.
\<close>

fun exec_event :: "string \<Rightarrow> int \<Rightarrow> calls \<Rightarrow> event \<Rightarrow> config \<Rightarrow> config option" where
  "exec_event pid d c Add cfg =
     (if pc cfg = AtAdd then Some (cfg\<lparr>wg := wg cfg + 4, pc := AtGo 0\<rparr>) else None)"
| "exec_event pid d c Go cfg =
     (case pc cfg of
        AtGo k \<Rightarrow>
          (if k < length task_order
           then Some (cfg\<lparr>status := (status cfg)(task_order ! k := Running),
                          pc := (if Suc k < length task_order then AtGo (Suc k) else AtWait)\<rparr>)
           else None)
      | _ \<Rightarrow> None)"
| "exec_event pid d c (Finish t) cfg =
     (if status cfg t = Running
      then Some (cfg\<lparr>vars := run_task t c (vars cfg),
                     status := (status cfg)(t := Finished),
                     wg := wg cfg - 1\<rparr>)
      else None)"
| "exec_event pid d c Wait cfg =
     (if pc cfg = AtWait \<and> wg cfg = 0
      then Some (cfg\<lparr>vars := resolve pid d (vars cfg), pc := Resolved\<rparr>)
      else None)"

fun run :: "string \<Rightarrow> int \<Rightarrow> calls \<Rightarrow> event list \<Rightarrow> config \<Rightarrow> config option" where
  "run pid d c [] cfg = Some cfg"
| "run pid d c (ev # evs) cfg =
     (case exec_event pid d c ev cfg of None \<Rightarrow> None | Some cfg' \<Rightarrow> run pid d c evs cfg')"

text \<open>The two variables a task owns, and what its call returned for them.\<close>

fun slot :: "task \<Rightarrow> summary_vars \<Rightarrow> RawMessage list \<times> go_error option" where
  "slot TPatient v = ([patient v], patientErr v)"
| "slot TObservations v = (observations v, observationsErr v)"
| "slot TConditions v = (conditions v, conditionsErr v)"
| "slot TPlans v = (plans v, plansErr v)"

fun outcome :: "calls \<Rightarrow> task \<Rightarrow> RawMessage list \<times> go_error option" where
  "outcome c TPatient = ([fst (readPatient c)], snd (readPatient c))"
| "outcome c TObservations = searchObservations c"
| "outcome c TConditions = searchConditions c"
| "outcome c TPlans = searchPlans c"

text \<open>The number of tasks that have not finished yet.\<close>

definition unfinished :: "(task \<Rightarrow> task_state) \<Rightarrow> nat" where
  "unfinished st = length (filter (\<lambda>t. st t \<noteq> Finished) task_order)"

text \<open>The tasks the main goroutine has started when it stands at \<open>p\<close>.\<close>

fun started :: "main_pc \<Rightarrow> task list" where
  "started AtAdd = []"
| "started (AtGo k) = take k task_order"
| "started AtWait = task_order"
| "started Resolved = task_order"



text \<open>
  What holds in every configuration the action can reach. The tasks the main goroutine
  has not started yet are exactly those with state \<open>NotStarted\<close>.
\<close>

definition started_inv :: "config \<Rightarrow> bool" where
  "started_inv cfg \<longleftrightarrow>
     (\<forall>t. (status cfg t = NotStarted) = (t \<notin> set (started (pc cfg)))) \<and>
     (\<forall>k. pc cfg = AtGo k \<longrightarrow> k < length task_order)"

text \<open>Once four has been added, the counter is the number of unfinished tasks.\<close>

definition counter_inv :: "config \<Rightarrow> bool" where
  "counter_inv cfg \<longleftrightarrow>
     wg cfg = (if pc cfg = AtAdd then 0 else int (unfinished (status cfg))) \<and>
     (pc cfg = Resolved \<longrightarrow> unfinished (status cfg) = 0)"

text \<open>
  A slot holds the result of its task when the task has finished and its initial value
  before; the two variables of the main goroutine are untouched before the join.
\<close>

definition slots_inv :: "calls \<Rightarrow> config \<Rightarrow> bool" where
  "slots_inv c cfg \<longleftrightarrow>
     (\<forall>t. slot t (vars cfg) = (if status cfg t = Finished then outcome c t else slot t init_vars)) \<and>
     (pc cfg \<noteq> Resolved \<longrightarrow> apiErr (vars cfg) = None \<and> elapsed (vars cfg) = 0)"

definition reach_inv :: "calls \<Rightarrow> config \<Rightarrow> bool" where
  "reach_inv c cfg \<longleftrightarrow> started_inv cfg \<and> counter_inv cfg \<and> slots_inv c cfg"


text \<open>After the join the variables are those the tasks, all run, and the resolution give.\<close>

definition final_inv :: "string \<Rightarrow> int \<Rightarrow> calls \<Rightarrow> config \<Rightarrow> bool" where
  "final_inv pid d c cfg \<longleftrightarrow>
     (pc cfg = Resolved \<longrightarrow>
        vars cfg = resolve pid d
          (task_plans c (task_conditions c (task_observations c (task_patient c init_vars)))))"


section \<open>Initialize: the environment and the store URL\<close>

text \<open>
  \<^verbatim>\<open>strings.ToLower\<close> on the bytes of ASCII text: the letters A to Z are lowered, every
  other byte stays.
\<close>

definition lower_char :: "char \<Rightarrow> char" where
  "lower_char ch =
     (case map_of (zip ''ABCDEFGHIJKLMNOPQRSTUVWXYZ'' ''abcdefghijklmnopqrstuvwxyz'') ch of
        Some l \<Rightarrow> l
      | None \<Rightarrow> ch)"

definition ToLower :: "string \<Rightarrow> string" where
  "ToLower s = map lower_char s"

text \<open>
  The fields of a parsed \<^verbatim>\<open>net/url.URL\<close> that the validation reads; \<open>Hostname\<close> is the
  value of the method \<^verbatim>\<open>Hostname()\<close> (the host with port and brackets taken off).
\<close>

record URL =
  Scheme :: string
  Host :: string
  Hostname :: string

datatype url_verdict = Accepted | NotAbsolute | NotSecure

text \<open>
  \<^verbatim>\<open>validatePhenoStoreURL\<close>; \<open>parse\<close> stands for \<^verbatim>\<open>net/url.Parse\<close>, which is not part of
  this repository. \<open>Accepted\<close> is the \<^verbatim>\<open>nil\<close> return, the other two are the two errors.
\<close>

definition validatePhenoStoreURL :: "(string \<Rightarrow> go_error + URL) \<Rightarrow> string \<Rightarrow> url_verdict" where
  "validatePhenoStoreURL parse rawURL =
     (case parse rawURL of
        Inl err \<Rightarrow> NotAbsolute
      | Inr parsed \<Rightarrow>
          if Scheme parsed = [] \<or> Host parsed = [] then NotAbsolute
          else if ToLower (Scheme parsed) = ''https'' then Accepted
          else if ToLower (Scheme parsed) = ''http'' then
            (let host = ToLower (Hostname parsed)
             in if host = ''localhost'' \<or> host = ''127.0.0.1'' \<or> host = ''::1''
                then Accepted else NotSecure)
          else NotSecure)"

fun verdict_error :: "url_verdict \<Rightarrow> go_error option" where
  "verdict_error Accepted = None"
| "verdict_error NotAbsolute = Some (Plain ''invalid PHENOSTORE_URL: must be an absolute URL'')"
| "verdict_error NotSecure =
     Some (Plain ''invalid PHENOSTORE_URL: must use https (http is only allowed for localhost)'')"

record 'c App =
  Client :: "'c option"

text \<open>
  \<^verbatim>\<open>Initialize\<close>: \<open>getenv\<close> is \<^verbatim>\<open>os.Getenv\<close> after \<^verbatim>\<open>godotenv.Load()\<close> (an unset variable
  reads as the empty string), \<open>newClient\<close> is \<^verbatim>\<open>phenostore.NewClient\<close>. The result is the
  returned error and the receiver as the call leaves it.
\<close>

definition Initialize ::
  "(string \<Rightarrow> string) \<Rightarrow> (string \<Rightarrow> go_error + URL) \<Rightarrow>
   (string \<Rightarrow> string \<Rightarrow> string \<Rightarrow> string \<Rightarrow> string \<Rightarrow> go_error + 'c) \<Rightarrow>
   'c App \<Rightarrow> go_error option \<times> 'c App" where
  "Initialize getenv parse newClient a =
     (let url = getenv ''PHENOSTORE_URL'';
          clientID = getenv ''PHENOSTORE_CLIENT_ID'';
          clientSecret = getenv ''PHENOSTORE_CLIENT_SECRET'';
          tenant = getenv ''PHENOSTORE_TENANT'';
          store = getenv ''PHENOSTORE_STORE''
      in if url = [] \<or> clientID = [] \<or> clientSecret = [] \<or> tenant = [] \<or> store = []
         then (Some (Plain ''missing required environment variables: PHENOSTORE_URL, PHENOSTORE_CLIENT_ID, PHENOSTORE_CLIENT_SECRET, PHENOSTORE_TENANT, PHENOSTORE_STORE''), a)
         else
           (case verdict_error (validatePhenoStoreURL parse url) of
              Some err \<Rightarrow> (Some err, a)
            | None \<Rightarrow>
                (case newClient url clientID clientSecret tenant store of
                   Inl err \<Rightarrow> (Some (Wrap ''creating client: '' err), a)
                 | Inr client \<Rightarrow> (None, a\<lparr>Client := Some client\<rparr>))))"

text \<open>The hosts on which plain http is allowed.\<close>

definition loopback_hosts :: "string set" where
  "loopback_hosts = {''localhost'', ''127.0.0.1'', ''::1''}"

text \<open>The five variables \<^verbatim>\<open>Initialize\<close> requires.\<close>

definition required_vars :: "string list" where
  "required_vars = [''PHENOSTORE_URL'', ''PHENOSTORE_CLIENT_ID'', ''PHENOSTORE_CLIENT_SECRET'',
                    ''PHENOSTORE_TENANT'', ''PHENOSTORE_STORE'']"


section \<open>CompleteActivity: marking an activity and closing the plan\<close>

text \<open>
  A JSON document as \<^verbatim>\<open>json.Unmarshal\<close> builds it in an \<^verbatim>\<open>any\<close>: \<^verbatim>\<open>nil\<close>, \<^verbatim>\<open>bool\<close>,
  \<^verbatim>\<open>float64\<close>, \<^verbatim>\<open>string\<close>, \<^verbatim>\<open>[]any\<close> and \<^verbatim>\<open>map[string]any\<close>. The document is a tree: no
  map or slice occurs in it twice, so an update in place of a map inside it is the
  rebuilding of the path that leads to that map.
\<close>

datatype json =
    JNull
  | JBool bool
  | JNumber real
  | JString string
  | JArray "json list"
  | JObject "(string \<times> json) list"

text \<open>The type assertions with a discarded \<^verbatim>\<open>ok\<close>: a failed one gives the zero value.\<close>

fun as_map :: "json \<Rightarrow> (string \<times> json) list option" where
  "as_map (JObject kvs) = Some kvs"
| "as_map j = None"

fun as_slice :: "json \<Rightarrow> json list" where
  "as_slice (JArray xs) = xs"
| "as_slice j = []"

fun as_string :: "json \<Rightarrow> string" where
  "as_string (JString s) = s"
| "as_string j = []"

text \<open>Indexing a map that may be \<^verbatim>\<open>nil\<close>: a missing key reads as \<^verbatim>\<open>nil\<close>.\<close>

definition index :: "(string \<times> json) list option \<Rightarrow> string \<Rightarrow> json" where
  "index m k =
     (case m of
        None \<Rightarrow> JNull
      | Some kvs \<Rightarrow> (case map_of kvs k of None \<Rightarrow> JNull | Some v \<Rightarrow> v))"

text \<open>\<^verbatim>\<open>detail["status"]\<close> of an activity, read the way both loops read it.\<close>

definition detail_of :: "json \<Rightarrow> (string \<times> json) list option" where
  "detail_of a = as_map (index (as_map a) ''detail'')"

definition detail_status :: "json \<Rightarrow> string" where
  "detail_status a = as_string (index (detail_of a) ''status'')"

definition activities_of :: "(string \<times> json) list \<Rightarrow> json list" where
  "activities_of carePlan = as_slice (index (Some carePlan) ''activity'')"

text \<open>
  The loop that builds the menu: one option, carrying its index, for every activity
  that is a map with a detail map whose status is not \<^verbatim>\<open>"completed"\<close>.
\<close>

fun build_options :: "nat \<Rightarrow> json list \<Rightarrow> (string \<times> nat) list" where
  "build_options i [] = []"
| "build_options i (a # as) =
     (if as_map a = None then build_options (Suc i) as
      else if detail_of a = None then build_options (Suc i) as
      else if detail_status a = ''completed'' then build_options (Suc i) as
      else (show_nat (i + 1) @ ''. '' @ as_string (index (detail_of a) ''description''), i)
             # build_options (Suc i) as)"

text \<open>The loop that looks for an activity that is not completed, leaving at the first.\<close>

fun allDone :: "json list \<Rightarrow> bool" where
  "allDone [] = True"
| "allDone (a # as) = (if detail_status a \<noteq> ''completed'' then False else allDone as)"

text \<open>Assigning to a key of a map: the value is replaced, or the key is added.\<close>

definition set_key :: "string \<Rightarrow> json \<Rightarrow> (string \<times> json) list \<Rightarrow> (string \<times> json) list" where
  "set_key k v kvs = AList.update k v kvs"

datatype completion =
    NoActivities
  | NothingToComplete
  | Panicked
  | UpdateSent "(string \<times> json) list" bool

text \<open>
  \<^verbatim>\<open>CompleteActivity\<close> from the parsed care plan on; \<open>actIdx\<close> is the value the select
  returned. Reading \<^verbatim>\<open>activities[actIdx]\<close> out of range and assigning into a \<^verbatim>\<open>nil\<close> map
  are panics. \<open>UpdateSent p b\<close> is the document given to \<^verbatim>\<open>UpdateResource\<close> and the value
  of \<^verbatim>\<open>allDone\<close>.
\<close>

definition completeActivity :: "(string \<times> json) list \<Rightarrow> nat \<Rightarrow> completion" where
  "completeActivity carePlan actIdx =
     (let activities = activities_of carePlan
      in if length activities = 0 then NoActivities
         else if length (build_options 0 activities) = 0 then NothingToComplete
         else if actIdx \<ge> length activities then Panicked
         else
           (case as_map (activities ! actIdx) of
              None \<Rightarrow> Panicked
            | Some act \<Rightarrow>
                (case as_map (index (Some act) ''detail'') of
                   None \<Rightarrow> Panicked
                 | Some detail \<Rightarrow>
                     (let detail' = set_key ''status'' (JString ''completed'') detail;
                          act' = set_key ''detail'' (JObject detail') act;
                          activities' = activities[actIdx := JObject act'];
                          carePlan' = set_key ''activity'' (JArray activities') carePlan;
                          finished = allDone activities'
                      in UpdateSent
                           (if finished then set_key ''status'' (JString ''completed'') carePlan'
                            else carePlan')
                           finished))))"



section \<open>Sample invocations\<close>

text \<open>The patient does not exist; the three searches succeed.\<close>

definition calls_patient_missing :: calls where
  "calls_patient_missing =
     \<lparr> readPatient = ([], Some (Foreign True ''HTTP 404'')),
       searchObservations = searchByPatient ''Observation'' (Responded 200 (Inr (Some []))),
       searchConditions = searchByPatient ''Condition'' (Responded 200 (Inr (Some []))),
       searchPlans = searchByPatient ''CarePlan'' (Responded 200 (Inr (Some []))) \<rparr>"

text \<open>The patient is read; observations and care plans fail, conditions succeed.\<close>

definition calls_two_fail :: calls where
  "calls_two_fail =
     \<lparr> readPatient = (''p1-json'', None),
       searchObservations =
         searchByPatient ''Observation'' (CallFailed (Foreign False ''connection reset'')),
       searchConditions =
         searchByPatient ''Condition'' (Responded 200 (Inr (Some [Some ''c1'']))),
       searchPlans = searchByPatient ''CarePlan'' (Responded 503 (Inr None)) \<rparr>"

text \<open>
  The patient is read; the observation search comes back with an error the SDK
  classifies as not found.
\<close>

definition calls_search_not_found :: calls where
  "calls_search_not_found =
     \<lparr> readPatient = (''p1-json'', None),
       searchObservations =
         searchByPatient ''Observation'' (CallFailed (Foreign True ''HTTP 404'')),
       searchConditions = searchByPatient ''Condition'' (Responded 200 (Inr (Some []))),
       searchPlans = searchByPatient ''CarePlan'' (Responded 200 (Inr (Some []))) \<rparr>"

text \<open>The patient does not exist and the condition search times out.\<close>

definition calls_missing_and_timeout :: calls where
  "calls_missing_and_timeout =
     \<lparr> readPatient = ([], Some (Foreign True ''HTTP 404'')),
       searchObservations = searchByPatient ''Observation'' (Responded 200 (Inr (Some []))),
       searchConditions = searchByPatient ''Condition'' (CallFailed (Foreign False ''timeout'')),
       searchPlans = searchByPatient ''CarePlan'' (Responded 200 (Inr (Some []))) \<rparr>"

text \<open>All four calls succeed, with one, three, two and one resources.\<close>

definition calls_all_ok :: calls where
  "calls_all_ok =
     \<lparr> readPatient = (''p1-json'', None),
       searchObservations =
         searchByPatient ''Observation''
           (Responded 200 (Inr (Some [Some ''o1'', Some ''o2'', None, Some ''o3'']))),
       searchConditions =
         searchByPatient ''Condition'' (Responded 200 (Inr (Some [Some ''c1'', Some ''c2'']))),
       searchPlans = searchByPatient ''CarePlan'' (Responded 200 (Inr (Some [Some ''cp1'']))) \<rparr>"



text \<open>
  One run of the action: observations and care plans finish while the main goroutine is
  still starting the others, the patient read and the conditions after that.
\<close>

definition schedule_sample :: "event list" where
  "schedule_sample =
     [Add, Go, Go, Finish TObservations, Go, Go, Finish TPlans, Finish TPatient,
      Finish TConditions, Wait]"


text \<open>
  Three store URLs with what \<^verbatim>\<open>net/url.Parse\<close> makes of them, and an environment around
  each.
\<close>

definition sample_parse :: "string \<Rightarrow> go_error + URL" where
  "sample_parse raw =
     (if raw = ''http://example.com''
      then Inr \<lparr>Scheme = ''http'', Host = ''example.com'', Hostname = ''example.com''\<rparr>
      else if raw = ''http://LocalHost:8080''
      then Inr \<lparr>Scheme = ''http'', Host = ''LocalHost:8080'', Hostname = ''LocalHost''\<rparr>
      else if raw = ''https://store.example.com''
      then Inr \<lparr>Scheme = ''https'', Host = ''store.example.com'',
                Hostname = ''store.example.com''\<rparr>
      else Inl (Foreign False ''parse error''))"

definition sample_env :: "string \<Rightarrow> string \<Rightarrow> string" where
  "sample_env url name =
     (if name = ''PHENOSTORE_URL'' then url
      else if name = ''PHENOSTORE_CLIENT_ID'' then ''id''
      else if name = ''PHENOSTORE_CLIENT_SECRET'' then ''secret''
      else if name = ''PHENOSTORE_TENANT'' then ''tenant''
      else if name = ''PHENOSTORE_STORE'' then ''store''
      else [])"

text \<open>A client that records the five values it was made from.\<close>

definition sample_newClient ::
  "string \<Rightarrow> string \<Rightarrow> string \<Rightarrow> string \<Rightarrow> string \<Rightarrow> go_error + string list" where
  "sample_newClient url clientID clientSecret tenant store =
     Inr [url, clientID, clientSecret, tenant, store]"


text \<open>
  A care plan with one completed and one open activity, and one with a third activity
  that has no detail.
\<close>

definition sample_activity :: "string \<Rightarrow> string \<Rightarrow> json" where
  "sample_activity description st =
     JObject [(''detail'', JObject [(''description'', JString description),
                                   (''status'', JString st)])]"

definition sample_plan :: "(string \<times> json) list" where
  "sample_plan =
     [(''resourceType'', JString ''CarePlan''), (''id'', JString ''cp1''),
      (''status'', JString ''active''),
      (''activity'', JArray [sample_activity ''walk'' ''completed'',
                            sample_activity ''diet'' ''not-started''])]"

definition sample_plan_open :: "(string \<times> json) list" where
  "sample_plan_open =
     [(''resourceType'', JString ''CarePlan''), (''id'', JString ''cp2''),
      (''status'', JString ''active''),
      (''activity'', JArray [sample_activity ''walk'' ''completed'',
                            sample_activity ''diet'' ''not-started'',
                            JObject [(''reference'', JString ''Appointment/1'')]])]"


section \<open>Properties of the patient summary\<close>

lemmas fetch_defs = fetchAction_def resolve_def task_patient_def task_observations_def
  task_conditions_def task_plans_def init_vars_def

lemma fetchAction_slots:
  "patient (fetchAction pid t0 t1 c) = fst (readPatient c)"
  "observations (fetchAction pid t0 t1 c) = fst (searchObservations c)"
  "conditions (fetchAction pid t0 t1 c) = fst (searchConditions c)"
  "plans (fetchAction pid t0 t1 c) = fst (searchPlans c)"
  "elapsed (fetchAction pid t0 t1 c) = t1 - t0"
  by (simp_all add: fetch_defs Let_def split: option.splits)

lemma fetchAction_errs:
  "patientErr (fetchAction pid t0 t1 c) = snd (readPatient c)"
  "observationsErr (fetchAction pid t0 t1 c) = snd (searchObservations c)"
  "conditionsErr (fetchAction pid t0 t1 c) = snd (searchConditions c)"
  "plansErr (fetchAction pid t0 t1 c) = snd (searchPlans c)"
  by (auto simp add: fetch_defs Let_def split: option.splits)

text \<open>
  The cascade of tests after the join is a search for the first failed task, followed by
  the wording of that one failure.
\<close>

lemma fetchAction_apiErr:
  "apiErr (fetchAction pid t0 t1 c) =
     (case first_failed c of
        None \<Rightarrow> None
      | Some t \<Rightarrow> map_option (surfaced pid t) (task_err c t))"
  by (auto simp add: fetch_defs Let_def first_failed_def task_order_def surfaced_def
        not_found_error_def IsNotFound_def split: option.splits)

lemma first_failed_None: "first_failed c = None \<longleftrightarrow> all_succeed c"
  by (auto simp add: first_failed_def task_order_def all_succeed_def split: if_splits)

lemma first_failed_Some: "first_failed c = Some t \<Longrightarrow> task_err c t \<noteq> None"
  by (auto simp add: first_failed_def task_order_def split: if_splits)

lemma first_failure_exists:
  assumes "\<not> all_succeed c"
  shows "\<exists>t e. first_failed c = Some t \<and> task_err c t = Some e"
proof -
  from assms obtain t where t: "first_failed c = Some t"
    using first_failed_None [of c] by (cases "first_failed c") auto
  then obtain e where "task_err c t = Some e"
    using first_failed_Some [of c t] by auto
  with t show ?thesis by blast
qed

lemma label_not_patient: "task_label t @ m \<noteq> ''patient '' @ m'"
  by (cases t) simp_all

text \<open>
  Claim C1, as stated: whenever a task fails, the error returned is the error of the first
  failed task wrapped with that task's label.

  This fails when the patient read fails with a not-found error: the message is then
  \<^verbatim>\<open>patient p1 not found\<close>, which carries neither the label \<^verbatim>\<open>reading patient\<close> nor the
  text of the underlying failure.
\<close>

theorem fetch_label_wrap_counterexample:
  "\<not> all_succeed calls_patient_missing \<and>
   first_failed calls_patient_missing = Some TPatient \<and>
   apiErr (fetchAction ''p1'' 0 5 calls_patient_missing) \<noteq>
     wrapped_first_failure calls_patient_missing \<and>
   map_option Error (wrapped_first_failure calls_patient_missing) =
     Some ''reading patient: HTTP 404'' \<and>
   map_option Error (apiErr (fetchAction ''p1'' 0 5 calls_patient_missing)) =
     Some ''patient p1 not found''"
  by (simp add: fetchAction_apiErr calls_patient_missing_def all_succeed_def first_failed_def
        task_order_def surfaced_def wrapped_first_failure_def not_found_error_def)

text \<open>
  Claim C1, amended: whenever at least one of the four tasks fails, the action leaves
  exactly one error in \<^verbatim>\<open>apiErr\<close>. It is made from the first failed task in the order
  patient, observations, conditions, care plans, and from nothing else: that task's error
  wrapped with its label, except that a not-found failure of the patient read is reworded
  as \<^verbatim>\<open>patient <id> not found\<close>. The errors of the tasks behind it are discarded: every
  invocation with the same first failure returns the same error.
\<close>

theorem fetch_first_failure_surfaced:
  assumes "\<not> all_succeed c"
  shows "\<exists>t e. first_failed c = Some t \<and> task_err c t = Some e \<and>
           apiErr (fetchAction pid t0 t1 c) = Some (surfaced pid t e) \<and>
           (\<forall>c'. first_failed c' = Some t \<and> task_err c' t = Some e \<longrightarrow>
                 apiErr (fetchAction pid t0 t1 c') = Some (surfaced pid t e))"
proof -
  obtain t e where te: "first_failed c = Some t" "task_err c t = Some e"
    using first_failure_exists [OF assms] by blast
  have "apiErr (fetchAction pid t0 t1 c') = Some (surfaced pid t e)"
    if "first_failed c' = Some t" "task_err c' t = Some e" for c'
    using that by (simp add: fetchAction_apiErr)
  then show ?thesis
    using te by blast
qed

theorem fetch_first_failure_surfaced_witness:
  "\<not> all_succeed calls_two_fail \<and>
   first_failed calls_two_fail = Some TObservations \<and>
   map_option Error (apiErr (fetchAction ''p1'' 0 5 calls_two_fail)) =
     Some ''loading observations: searching Observation: connection reset''"
  using fetch_first_failure_surfaced [of calls_two_fail "''p1''" 0 5]
  by (simp add: calls_two_fail_def all_succeed_def first_failed_def task_order_def surfaced_def)

text \<open>
  Claim C2, as stated: when the error of the first failed task is of the not-found kind,
  the error returned is \<^verbatim>\<open>patient <id> not found\<close>.

  This fails when the patient is read and a search is the first task to fail, with an
  error the SDK classifies as not found: the error is wrapped with the label of the search.
\<close>

theorem first_failure_not_found_counterexample:
  "first_failed calls_search_not_found = Some TObservations \<and>
   IsNotFound (task_err calls_search_not_found TObservations) \<and>
   apiErr (fetchAction ''p1'' 0 5 calls_search_not_found) \<noteq> Some (not_found_error ''p1'') \<and>
   map_option Error (apiErr (fetchAction ''p1'' 0 5 calls_search_not_found)) =
     Some ''loading observations: searching Observation: HTTP 404''"
  by (simp add: fetchAction_apiErr calls_search_not_found_def first_failed_def
        task_order_def surfaced_def not_found_error_def IsNotFound_def)

text \<open>
  Claim C2, amended: when the patient read fails with an error of the not-found kind, the
  error returned is \<^verbatim>\<open>patient <id> not found\<close> and not a wrapped transport error,
  whatever the three searches returned, so also when some of them failed with errors of
  another kind.
\<close>

theorem patient_not_found_precedence:
  assumes "IsNotFound (snd (readPatient c))"
  shows "apiErr (fetchAction pid t0 t1 c) = Some (not_found_error pid) \<and>
         Error (not_found_error pid) = ''patient '' @ pid @ '' not found''"
  using assms
  by (auto simp add: fetch_defs Let_def not_found_error_def IsNotFound_def
        split: option.splits)

theorem patient_not_found_precedence_witness:
  "IsNotFound (snd (readPatient calls_missing_and_timeout)) \<and>
   snd (searchConditions calls_missing_and_timeout) =
     Some (Wrap ''searching Condition: '' (Foreign False ''timeout'')) \<and>
   map_option Error (apiErr (fetchAction ''p1'' 0 5 calls_missing_and_timeout)) =
     Some ''patient p1 not found''"
  using patient_not_found_precedence [of calls_missing_and_timeout "''p1''" 0 5]
  by (simp add: calls_missing_and_timeout_def IsNotFound_def)

text \<open>
  Claim C3: when all four tasks succeed, the action sets no error, each of the four slots
  holds what its own task returned, in the order patient, observations, conditions, care
  plans, and for a picked patient these four values, in this order, are what
  \<^verbatim>\<open>PatientSummary\<close> prints the summary from.
\<close>

theorem all_succeed_delivers_summary:
  assumes "all_succeed c"
  shows "apiErr (fetchAction pid t0 t1 c) = None \<and>
         map (\<lambda>t. slot t (fetchAction pid t0 t1 c)) task_order = map (outcome c) task_order \<and>
         (pid \<noteq> [] \<longrightarrow>
            PatientSummary (pid, None) None t0 t1 c =
              SummaryShown (fst (readPatient c)) (fst (searchObservations c))
                (fst (searchConditions c)) (fst (searchPlans c))
                (length (fst (searchObservations c)) + length (fst (searchConditions c)) +
                 length (fst (searchPlans c)) + 1)
                (t1 - t0))"
proof -
  have a: "apiErr (fetchAction pid t0 t1 c) = None"
    using assms first_failed_None [of c] by (simp add: fetchAction_apiErr)
  have s: "map (\<lambda>t. slot t (fetchAction pid t0 t1 c)) task_order = map (outcome c) task_order"
    by (simp add: task_order_def fetchAction_slots fetchAction_errs prod_eq_iff)
  show ?thesis
    using a s by (simp add: PatientSummary_def deliver_def fetchAction_slots)
qed

theorem all_succeed_delivers_summary_witness:
  "all_succeed calls_all_ok \<and>
   PatientSummary (''p1'', None) None 0 5 calls_all_ok =
     SummaryShown ''p1-json'' [''o1'', ''o2'', ''o3''] [''c1'', ''c2''] [''cp1''] 7 5"
  using all_succeed_delivers_summary [of calls_all_ok "''p1''" 0 5]
  by (simp add: calls_all_ok_def all_succeed_def PatientSummary_def)

text \<open>
  Claim C4: when any of the four tasks fails, \<^verbatim>\<open>PatientSummary\<close> never prints the summary,
  whatever the slots hold; and when the patient was picked and the spinner itself did not
  fail, what it shows is the one error the action selected.
\<close>

theorem failure_delivers_no_summary:
  assumes "\<not> all_succeed c"
  shows "(\<forall>p os cs ps n d. PatientSummary pick spinErr t0 t1 c \<noteq> SummaryShown p os cs ps n d) \<and>
         (fst pick \<noteq> [] \<and> snd pick = None \<and> spinErr = None \<longrightarrow>
            (\<exists>e. apiErr (fetchAction (fst pick) t0 t1 c) = Some e \<and>
                 PatientSummary pick spinErr t0 t1 c = ErrorShown e))"
proof -
  have ne: "apiErr (fetchAction pid t0 t1 c) \<noteq> None" for pid
    using first_failure_exists [OF assms] by (auto simp add: fetchAction_apiErr)
  obtain a b where pick: "pick = (a, b)"
    by (cases pick)
  show ?thesis
    using ne [of a]
    by (auto simp add: pick PatientSummary_def deliver_def split: option.splits)
qed

theorem failure_delivers_no_summary_witness:
  "\<not> all_succeed calls_two_fail \<and>
   PatientSummary (''p1'', None) None 0 5 calls_two_fail =
     ErrorShown (Wrap ''loading observations: ''
                  (Wrap ''searching Observation: '' (Foreign False ''connection reset'')))"
  using failure_delivers_no_summary [of calls_two_fail "(''p1'', None)" None 0 5]
  by (simp add: calls_two_fail_def all_succeed_def fetchAction_apiErr first_failed_def
        task_order_def surfaced_def)

text \<open>
  Claim C8: the rewording is for the patient read alone. When the patient read did not fail
  with a not-found error and one of the three searches failed with an error of the
  not-found kind, the error returned is the error of the first failed task wrapped with
  that task's label, and its text is never a \<^verbatim>\<open>patient <id> not found\<close> message.
\<close>

theorem search_not_found_is_wrapped:
  assumes "\<not> IsNotFound (snd (readPatient c))"
      and "t \<in> {TObservations, TConditions, TPlans}"
      and "IsNotFound (task_err c t)"
  shows "\<exists>t' e. first_failed c = Some t' \<and> task_err c t' = Some e \<and>
           apiErr (fetchAction pid t0 t1 c) = Some (Wrap (task_label t') e) \<and>
           Error (Wrap (task_label t') e) = task_label t' @ Error e \<and>
           (\<forall>pid'. Error (Wrap (task_label t') e) \<noteq> Error (not_found_error pid'))"
proof -
  from assms(3) have "task_err c t \<noteq> None"
    by (auto simp add: IsNotFound_def split: option.splits)
  with assms(2) have "\<not> all_succeed c"
    by (auto simp add: all_succeed_def)
  then obtain t' e where te: "first_failed c = Some t'" "task_err c t' = Some e"
    using first_failure_exists by blast
  have "\<not> (t' = TPatient \<and> is_not_found e)"
    using assms(1) te(2) by (auto simp add: IsNotFound_def)
  then have "surfaced pid t' e = Wrap (task_label t') e"
    unfolding surfaced_def by auto
  then have "apiErr (fetchAction pid t0 t1 c) = Some (Wrap (task_label t') e)"
    using te by (simp add: fetchAction_apiErr)
  moreover have "\<forall>pid'. Error (Wrap (task_label t') e) \<noteq> Error (not_found_error pid')"
    using label_not_patient by (simp add: not_found_error_def)
  ultimately show ?thesis using te by simp
qed

theorem search_not_found_is_wrapped_witness:
  "\<not> IsNotFound (snd (readPatient calls_search_not_found)) \<and>
   IsNotFound (task_err calls_search_not_found TObservations) \<and>
   apiErr (fetchAction ''p1'' 0 5 calls_search_not_found) =
     Some (Wrap ''loading observations: ''
            (Wrap ''searching Observation: '' (Foreign True ''HTTP 404'')))"
  using search_not_found_is_wrapped [of calls_search_not_found TObservations "''p1''" 0 5]
  by (simp add: calls_search_not_found_def IsNotFound_def first_failed_def task_order_def)



section \<open>Properties of the goroutines and the join\<close>

lemma unfinished_Finished:
  "st t \<noteq> Finished \<Longrightarrow> int (unfinished (st(t := Finished))) = int (unfinished st) - 1"
  by (cases t) (auto simp add: unfinished_def task_order_def)

lemma unfinished_Running:
  "st t \<noteq> Finished \<Longrightarrow> unfinished (st(t := Running)) = unfinished st"
  by (cases t) (auto simp add: unfinished_def task_order_def)

lemma unfinished_zero: "unfinished st = 0 \<longleftrightarrow> (\<forall>t. st t = Finished)"
proof
  assume z: "unfinished st = 0"
  show "\<forall>t. st t = Finished"
  proof
    fix t
    from z show "st t = Finished"
      by (cases t) (auto simp add: unfinished_def task_order_def split: if_splits)
  qed
next
  assume "\<forall>t. st t = Finished"
  then show "unfinished st = 0"
    by (simp add: unfinished_def)
qed

lemma slot_run_task_other: "t' \<noteq> t \<Longrightarrow> slot t' (run_task t c v) = slot t' v"
  by (cases t; cases t')
     (simp_all add: task_patient_def task_observations_def task_conditions_def task_plans_def Let_def)

lemma slot_run_task_own:
  "slot t v = slot t init_vars \<Longrightarrow> slot t (run_task t c v) = outcome c t"
  by (cases t)
     (auto simp add: task_patient_def task_observations_def task_conditions_def task_plans_def
        Let_def init_vars_def)

lemma run_task_main_vars:
  "apiErr (run_task t c v) = apiErr v" "elapsed (run_task t c v) = elapsed v"
  by (cases t;
      simp add: task_patient_def task_observations_def task_conditions_def task_plans_def Let_def)+

lemma slot_resolve: "slot t (resolve pid d v) = slot t v"
  by (cases t) (auto simp add: resolve_def Let_def split: option.splits)

lemma distinct_task_order: "distinct task_order"
  by (simp add: task_order_def)

lemma reach_inv_init: "reach_inv c init_config"
  by (simp add: reach_inv_def started_inv_def counter_inv_def slots_inv_def init_config_def
        init_vars_def)

lemma started_inv_step:
  assumes "started_inv cfg" and "exec_event pid d c ev cfg = Some cfg'"
  shows "started_inv cfg'"
proof (cases ev)
  case Add
  with assms show ?thesis
    by (auto simp add: started_inv_def task_order_def split: if_splits)
next
  case Go
  from assms(2) Go obtain k where k: "pc cfg = AtGo k" "k < length task_order"
    and cfg': "cfg' = cfg\<lparr>status := (status cfg)(task_order ! k := Running),
                 pc := (if Suc k < length task_order then AtGo (Suc k) else AtWait)\<rparr>"
    by (auto split: main_pc.splits if_splits)
  have "started (pc cfg') = take (Suc k) task_order"
    by (simp add: cfg')
  then have st: "set (started (pc cfg')) = insert (task_order ! k) (set (started (pc cfg)))"
    using k by (simp add: take_Suc_conv_app_nth)
  show ?thesis
    unfolding started_inv_def
  proof (intro conjI allI impI)
    fix t
    show "(status cfg' t = NotStarted) = (t \<notin> set (started (pc cfg')))"
      using assms(1) unfolding st by (auto simp add: cfg' started_inv_def)
  next
    fix j assume "pc cfg' = AtGo j"
    then show "j < length task_order"
      by (auto simp add: cfg' split: if_splits)
  qed
next
  case (Finish t)
  with assms(2) have r: "status cfg t = Running"
    and cfg': "cfg' = cfg\<lparr>vars := run_task t c (vars cfg),
                 status := (status cfg)(t := Finished), wg := wg cfg - 1\<rparr>"
    by (auto split: if_splits)
  from r assms(1) have "t \<in> set (started (pc cfg))"
    by (metis started_inv_def task_state.distinct(1))
  with assms(1) show ?thesis
    by (simp add: started_inv_def cfg')
next
  case Wait
  with assms show ?thesis
    by (auto simp add: started_inv_def split: if_splits)
qed

lemma go_target_not_started:
  assumes "started_inv cfg" and "pc cfg = AtGo k" and "k < length task_order"
  shows "status cfg (task_order ! k) = NotStarted"
proof -
  have "task_order ! k \<notin> set (take k task_order)"
    using assms(3) distinct_task_order
    by (metis distinct_take id_take_nth_drop not_distinct_conv_prefix append.assoc
          append_Cons append_Nil distinct_append disjoint_iff list.set_intros(1))
  then show ?thesis
    using assms(1,2) by (simp add: started_inv_def)
qed


lemma counter_inv_step:
  assumes "started_inv cfg" and "counter_inv cfg" and "exec_event pid d c ev cfg = Some cfg'"
  shows "counter_inv cfg'"
proof (cases ev)
  case Add
  with assms have "status cfg = (\<lambda>t. NotStarted)"
    by (auto simp add: started_inv_def split: if_splits)
  with assms Add show ?thesis
    by (auto simp add: counter_inv_def unfinished_def task_order_def split: if_splits)
next
  case Go
  from assms(3) Go obtain k where k: "pc cfg = AtGo k" "k < length task_order"
    and cfg': "cfg' = cfg\<lparr>status := (status cfg)(task_order ! k := Running),
                 pc := (if Suc k < length task_order then AtGo (Suc k) else AtWait)\<rparr>"
    by (auto split: main_pc.splits if_splits)
  have "status cfg (task_order ! k) = NotStarted"
    using go_target_not_started [OF assms(1) k] .
  then have "unfinished ((status cfg)(task_order ! k := Running)) = unfinished (status cfg)"
    by (simp add: unfinished_Running)
  with assms(2) k(1) show ?thesis
    by (simp add: counter_inv_def cfg')
next
  case (Finish t)
  with assms(3) have r: "status cfg t = Running"
    and cfg': "cfg' = cfg\<lparr>vars := run_task t c (vars cfg),
                 status := (status cfg)(t := Finished), wg := wg cfg - 1\<rparr>"
    by (auto split: if_splits)
  from r have nf: "status cfg t \<noteq> Finished" by simp
  from r assms(1) have "pc cfg \<noteq> AtAdd"
    by (auto simp add: started_inv_def)
  moreover from nf have "unfinished (status cfg) \<noteq> 0"
    by (auto simp add: unfinished_zero)
  ultimately show ?thesis
    using assms(2) unfinished_Finished [of "status cfg" t, OF nf]
    by (simp add: counter_inv_def cfg')
next
  case Wait
  with assms show ?thesis
    by (auto simp add: counter_inv_def split: if_splits)
qed

lemma slots_inv_step:
  assumes "slots_inv c cfg" and "counter_inv cfg" and "started_inv cfg"
      and "exec_event pid d c ev cfg = Some cfg'"
  shows "slots_inv c cfg'"
proof (cases ev)
  case Add
  with assms show ?thesis
    by (auto simp add: slots_inv_def split: if_splits)
next
  case Go
  from assms(4) Go obtain k where k: "pc cfg = AtGo k" "k < length task_order"
    and cfg': "cfg' = cfg\<lparr>status := (status cfg)(task_order ! k := Running),
                 pc := (if Suc k < length task_order then AtGo (Suc k) else AtWait)\<rparr>"
    by (auto split: main_pc.splits if_splits)
  have "status cfg (task_order ! k) = NotStarted"
    using go_target_not_started [OF assms(3) k] .
  then show ?thesis
    using assms(1) k(1) by (auto simp add: slots_inv_def cfg')
next
  case (Finish t)
  with assms(4) have r: "status cfg t = Running"
    and cfg': "cfg' = cfg\<lparr>vars := run_task t c (vars cfg),
                 status := (status cfg)(t := Finished), wg := wg cfg - 1\<rparr>"
    by (auto split: if_splits)
  from r assms(1) have own: "slot t (vars cfg) = slot t init_vars"
    by (simp add: slots_inv_def)
  from r have "status cfg t \<noteq> Finished" by simp
  then have "unfinished (status cfg) \<noteq> 0"
    unfolding unfinished_zero by blast
  with assms(2) have nr: "pc cfg \<noteq> Resolved"
    by (auto simp add: counter_inv_def)
  show ?thesis
    unfolding slots_inv_def
  proof (intro conjI allI impI)
    fix t'
    show "slot t' (vars cfg') =
            (if status cfg' t' = Finished then outcome c t' else slot t' init_vars)"
    proof (cases "t' = t")
      case True
      then show ?thesis
        by (simp add: cfg' slot_run_task_own [OF own])
    next
      case False
      then show ?thesis
        using assms(1) by (simp add: cfg' slot_run_task_other slots_inv_def)
    qed
  next
    show "apiErr (vars cfg') = None" "elapsed (vars cfg') = 0"
      using assms(1) nr by (simp_all add: cfg' run_task_main_vars slots_inv_def)
  qed
next
  case Wait
  with assms(4) have cfg': "cfg' = cfg\<lparr>vars := resolve pid d (vars cfg), pc := Resolved\<rparr>"
    by (auto split: if_splits)
  show ?thesis
    using assms(1) by (simp add: slots_inv_def cfg' slot_resolve)
qed

lemma reach_inv_step:
  assumes "reach_inv c cfg" and "exec_event pid d c ev cfg = Some cfg'"
  shows "reach_inv c cfg'"
  using assms started_inv_step counter_inv_step slots_inv_step
  unfolding reach_inv_def by blast

lemma reach_inv_run:
  "reach_inv c cfg \<Longrightarrow> run pid d c evs cfg = Some cfg' \<Longrightarrow> reach_inv c cfg'"
proof (induction evs arbitrary: cfg)
  case Nil
  then show ?case by simp
next
  case (Cons ev evs)
  then obtain cfg1 where "exec_event pid d c ev cfg = Some cfg1" "run pid d c evs cfg1 = Some cfg'"
    by (auto split: option.splits)
  with Cons show ?case
    using reach_inv_step by blast
qed

lemma reachable_inv: "run pid d c evs init_config = Some cfg \<Longrightarrow> reach_inv c cfg"
  using reach_inv_run reach_inv_init by blast


lemma all_finished_vars:
  assumes "slots_inv c cfg" and "\<forall>t. status cfg t = Finished" and "pc cfg \<noteq> Resolved"
  shows "vars cfg = task_plans c (task_conditions c (task_observations c (task_patient c init_vars)))"
proof -
  have s: "slot t (vars cfg) = outcome c t" for t
    using assms(1,2) by (simp add: slots_inv_def)
  have m: "apiErr (vars cfg) = None" "elapsed (vars cfg) = 0"
    using assms(1,3) by (simp_all add: slots_inv_def)
  have f: "patient (vars cfg) = fst (readPatient c)" "patientErr (vars cfg) = snd (readPatient c)"
    "observations (vars cfg) = fst (searchObservations c)"
    "observationsErr (vars cfg) = snd (searchObservations c)"
    "conditions (vars cfg) = fst (searchConditions c)"
    "conditionsErr (vars cfg) = snd (searchConditions c)"
    "plans (vars cfg) = fst (searchPlans c)" "plansErr (vars cfg) = snd (searchPlans c)"
    using s [of TPatient] s [of TObservations] s [of TConditions] s [of TPlans]
    by (simp_all add: prod_eq_iff)
  show ?thesis
    using f m
    by (cases "vars cfg")
       (simp add: task_patient_def task_observations_def task_conditions_def
          task_plans_def init_vars_def Let_def)
qed

lemma final_inv_step:
  assumes "reach_inv c cfg" and "final_inv pid d c cfg"
      and "exec_event pid d c ev cfg = Some cfg'"
  shows "final_inv pid d c cfg'"
proof (cases ev)
  case Add
  with assms show ?thesis
    by (auto simp add: final_inv_def split: if_splits)
next
  case Go
  with assms(3) show ?thesis
    by (auto simp add: final_inv_def split: main_pc.splits if_splits)
next
  case (Finish t)
  with assms(3) have r: "status cfg t = Running"
    by (auto split: if_splits)
  then have "status cfg t \<noteq> Finished" by simp
  then have "unfinished (status cfg) \<noteq> 0"
    unfolding unfinished_zero by blast
  with assms(1) have "pc cfg \<noteq> Resolved"
    by (auto simp add: reach_inv_def counter_inv_def)
  with assms(3) Finish show ?thesis
    by (auto simp add: final_inv_def split: if_splits)
next
  case Wait
  with assms(3) have w: "pc cfg = AtWait" "wg cfg = 0"
    and cfg': "cfg' = cfg\<lparr>vars := resolve pid d (vars cfg), pc := Resolved\<rparr>"
    by (auto split: if_splits)
  from w assms(1) have "unfinished (status cfg) = 0"
    by (simp add: reach_inv_def counter_inv_def)
  then have "\<forall>t. status cfg t = Finished"
    by (simp add: unfinished_zero)
  then have "vars cfg =
      task_plans c (task_conditions c (task_observations c (task_patient c init_vars)))"
    using all_finished_vars assms(1) w(1) by (simp add: reach_inv_def)
  then show ?thesis
    by (simp add: final_inv_def cfg')
qed

lemma both_inv_run:
  "reach_inv c cfg \<Longrightarrow> final_inv pid d c cfg \<Longrightarrow> run pid d c evs cfg = Some cfg' \<Longrightarrow>
   reach_inv c cfg' \<and> final_inv pid d c cfg'"
proof (induction evs arbitrary: cfg)
  case Nil
  then show ?case by simp
next
  case (Cons ev evs)
  then obtain cfg1 where s: "exec_event pid d c ev cfg = Some cfg1"
    and r: "run pid d c evs cfg1 = Some cfg'"
    by (auto split: option.splits)
  have "reach_inv c cfg1" "final_inv pid d c cfg1"
    using Cons.prems(1,2) s reach_inv_step final_inv_step by blast+
  then show ?case
    using Cons.IH r by blast
qed

lemma reachable_final:
  assumes "run pid (t1 - t0) c evs init_config = Some cfg" and "pc cfg = Resolved"
  shows "vars cfg = fetchAction pid t0 t1 c"
proof -
  have "final_inv pid (t1 - t0) c init_config"
    by (simp add: final_inv_def init_config_def)
  then have "final_inv pid (t1 - t0) c cfg"
    using both_inv_run [OF reach_inv_init _ assms(1)] by blast
  with assms(2) show ?thesis
    by (simp add: final_inv_def fetchAction_def)
qed


lemma progress:
  assumes "reach_inv c cfg"
  shows "pc cfg \<noteq> Resolved \<longrightarrow> (\<exists>ev. exec_event pid d c ev cfg \<noteq> None)"
proof (cases "pc cfg")
  case AtAdd
  then have "exec_event pid d c Add cfg \<noteq> None" by simp
  then show ?thesis by blast
next
  case (AtGo k)
  with assms have "k < length task_order"
    by (simp add: reach_inv_def started_inv_def)
  with AtGo have "exec_event pid d c Go cfg \<noteq> None" by simp
  then show ?thesis by blast
next
  case AtWait
  show ?thesis
  proof (cases "wg cfg = 0")
    case True
    with AtWait have "exec_event pid d c Wait cfg \<noteq> None" by simp
    then show ?thesis by blast
  next
    case False
    with AtWait assms have "unfinished (status cfg) \<noteq> 0"
      by (simp add: reach_inv_def counter_inv_def)
    then obtain t where t: "status cfg t \<noteq> Finished"
      unfolding unfinished_zero by blast
    have "t \<in> set (started (pc cfg))"
      using AtWait by (cases t) (simp_all add: task_order_def)
    with assms have "status cfg t \<noteq> NotStarted"
      by (simp add: reach_inv_def started_inv_def)
    with t have "status cfg t = Running"
      by (cases "status cfg t") simp_all
    then have "exec_event pid d c (Finish t) cfg \<noteq> None" by simp
    then show ?thesis by blast
  qed
next
  case Resolved
  then show ?thesis by simp
qed

text \<open>
  Claim C5: in every configuration the action can reach, whatever the order in which the
  goroutines finish, the error selection has run only if all four tasks have finished:
  before the join no error is selected, and \<^verbatim>\<open>wg.Wait()\<close> can return only when every task
  has finished. The join does not depend on any error. No step takes a running task
  away: it can always finish, no other step changes its state, and until the join has
  passed some step is always possible.
\<close>

theorem join_after_all_tasks:
  assumes "run pid d c evs init_config = Some cfg"
  shows "(pc cfg = Resolved \<longrightarrow> (\<forall>t. status cfg t = Finished)) \<and>
         (pc cfg \<noteq> Resolved \<longrightarrow> apiErr (vars cfg) = None) \<and>
         (exec_event pid d c Wait cfg \<noteq> None \<longrightarrow> (\<forall>t. status cfg t = Finished)) \<and>
         (pc cfg \<noteq> Resolved \<longrightarrow> (\<exists>ev. exec_event pid d c ev cfg \<noteq> None)) \<and>
         (\<forall>t. status cfg t = Running \<longrightarrow> exec_event pid d c (Finish t) cfg \<noteq> None) \<and>
         (\<forall>t ev cfg'. status cfg t = Running \<and> exec_event pid d c ev cfg = Some cfg' \<and>
             ev \<noteq> Finish t \<longrightarrow> status cfg' t = Running)"
proof -
  have inv: "reach_inv c cfg"
    using assms by (rule reachable_inv)
  have a: "pc cfg = Resolved \<longrightarrow> (\<forall>t. status cfg t = Finished)"
    using inv by (simp add: reach_inv_def counter_inv_def unfinished_zero)
  have b: "pc cfg \<noteq> Resolved \<longrightarrow> apiErr (vars cfg) = None"
    using inv by (simp add: reach_inv_def slots_inv_def)
  have w: "exec_event pid d c Wait cfg \<noteq> None \<longrightarrow> (\<forall>t. status cfg t = Finished)"
    using inv by (auto simp add: reach_inv_def counter_inv_def unfinished_zero split: if_splits)
  have e: "\<forall>t. status cfg t = Running \<longrightarrow> exec_event pid d c (Finish t) cfg \<noteq> None"
    by simp
  have f: "status cfg' t = Running"
    if "status cfg t = Running" "exec_event pid d c ev cfg = Some cfg'" "ev \<noteq> Finish t"
    for t ev cfg'
    using that by (cases ev) (auto split: if_splits main_pc.splits)
  have p: "pc cfg \<noteq> Resolved \<longrightarrow> (\<exists>ev. exec_event pid d c ev cfg \<noteq> None)"
    using inv by (rule progress)
  show ?thesis
    using a b w p e f by blast
qed


lemma sample_run:
  "\<exists>cfg. run ''p1'' 5 calls_two_fail schedule_sample init_config = Some cfg \<and>
         pc cfg = Resolved \<and> wg cfg = 0"
  by (simp add: schedule_sample_def init_config_def task_order_def)

theorem join_after_all_tasks_witness:
  "run ''p1'' 5 calls_two_fail schedule_sample init_config \<noteq> None \<and>
   pc (the (run ''p1'' 5 calls_two_fail schedule_sample init_config)) = Resolved \<and>
   (\<forall>t. status (the (run ''p1'' 5 calls_two_fail schedule_sample init_config)) t = Finished)"
proof -
  obtain cfg where r: "run ''p1'' 5 calls_two_fail schedule_sample init_config = Some cfg"
    and p: "pc cfg = Resolved"
    using sample_run by blast
  from join_after_all_tasks [OF r] p have "\<forall>t. status cfg t = Finished"
    by blast
  with r p show ?thesis by simp
qed

text \<open>
  Claim C6: in every configuration the action can reach, the two slots of a task hold what
  its call returned when the task has finished, and their initial values before. The
  step in which a task finishes writes its own two slots and leaves the slots of the
  other three tasks and the two variables of the main goroutine as they were. After the
  join every slot holds the result of its own task, and the variables are those of
  \<open>fetchAction\<close>, in whatever order the tasks finished.
\<close>

theorem tasks_write_own_slots:
  assumes "run pid d c evs init_config = Some cfg"
  shows "(\<forall>t. slot t (vars cfg) =
              (if status cfg t = Finished then outcome c t else slot t init_vars)) \<and>
         (\<forall>t cfg'. exec_event pid d c (Finish t) cfg = Some cfg' \<longrightarrow>
              slot t (vars cfg') = outcome c t \<and>
              (\<forall>t'. t' \<noteq> t \<longrightarrow> slot t' (vars cfg') = slot t' (vars cfg)) \<and>
              apiErr (vars cfg') = apiErr (vars cfg) \<and>
              elapsed (vars cfg') = elapsed (vars cfg)) \<and>
         (pc cfg = Resolved \<longrightarrow>
              (\<forall>t. slot t (vars cfg) = outcome c t) \<and> vars cfg = fetchAction pid 0 d c)"
proof -
  have inv: "reach_inv c cfg"
    using assms by (rule reachable_inv)
  then have a: "\<forall>t. slot t (vars cfg) =
                  (if status cfg t = Finished then outcome c t else slot t init_vars)"
    by (simp add: reach_inv_def slots_inv_def)
  have b: "slot t (vars cfg') = outcome c t \<and>
           (\<forall>t'. t' \<noteq> t \<longrightarrow> slot t' (vars cfg') = slot t' (vars cfg)) \<and>
           apiErr (vars cfg') = apiErr (vars cfg) \<and> elapsed (vars cfg') = elapsed (vars cfg)"
    if f: "exec_event pid d c (Finish t) cfg = Some cfg'" for t cfg'
  proof -
    from f have r: "status cfg t = Running"
      and v: "vars cfg' = run_task t c (vars cfg)"
      by (auto split: if_splits)
    from r a have "slot t (vars cfg) = slot t init_vars" by simp
    then show ?thesis
      by (simp add: v slot_run_task_own slot_run_task_other run_task_main_vars)
  qed
  have c: "pc cfg = Resolved \<longrightarrow>
           (\<forall>t. slot t (vars cfg) = outcome c t) \<and> vars cfg = fetchAction pid 0 d c"
  proof
    assume p: "pc cfg = Resolved"
    with inv have "\<forall>t. status cfg t = Finished"
      by (simp add: reach_inv_def counter_inv_def unfinished_zero)
    with a have "\<forall>t. slot t (vars cfg) = outcome c t" by simp
    moreover have "vars cfg = fetchAction pid 0 d c"
      using reachable_final [of pid d 0 c evs cfg] assms p by simp
    ultimately show "(\<forall>t. slot t (vars cfg) = outcome c t) \<and> vars cfg = fetchAction pid 0 d c"
      by simp
  qed
  show ?thesis
    using a b c by blast
qed

theorem tasks_write_own_slots_witness:
  "run ''p1'' 5 calls_all_ok schedule_sample init_config \<noteq> None \<and>
   map (\<lambda>t. slot t (vars (the (run ''p1'' 5 calls_all_ok schedule_sample init_config))))
     task_order =
   [([''p1-json''], None), ([''o1'', ''o2'', ''o3''], None), ([''c1'', ''c2''], None),
    ([''cp1''], None)]"
proof -
  have "\<exists>cfg. run ''p1'' 5 calls_all_ok schedule_sample init_config = Some cfg \<and>
              pc cfg = Resolved"
    by (simp add: schedule_sample_def init_config_def task_order_def)
  then obtain cfg where r: "run ''p1'' 5 calls_all_ok schedule_sample init_config = Some cfg"
    and p: "pc cfg = Resolved"
    by blast
  from tasks_write_own_slots [OF r] p have "\<forall>t. slot t (vars cfg) = outcome calls_all_ok t"
    by blast
  then have "map (\<lambda>t. slot t (vars cfg)) task_order = map (outcome calls_all_ok) task_order"
    by simp
  with r show ?thesis
    by (simp add: task_order_def calls_all_ok_def)
qed



section \<open>Properties of Initialize\<close>

lemma validate_Accepted:
  "validatePhenoStoreURL parse raw = Accepted \<longleftrightarrow>
     (\<exists>u. parse raw = Inr u \<and> Scheme u \<noteq> [] \<and> Host u \<noteq> [] \<and>
          (ToLower (Scheme u) = ''https'' \<or>
           ToLower (Scheme u) = ''http'' \<and> ToLower (Hostname u) \<in> loopback_hosts))"
  by (auto simp add: validatePhenoStoreURL_def loopback_hosts_def Let_def split: sum.splits)

lemma verdict_error_None: "verdict_error v = None \<longleftrightarrow> v = Accepted"
  by (cases v) simp_all

lemma Initialize_error_keeps:
  "fst (Initialize getenv parse newClient a) \<noteq> None \<Longrightarrow>
   snd (Initialize getenv parse newClient a) = a"
  by (auto simp add: Initialize_def Let_def split: option.splits sum.splits if_splits)

lemma Initialize_ok:
  "fst (Initialize getenv parse newClient a) = None \<Longrightarrow>
   (\<forall>v \<in> set required_vars. getenv v \<noteq> []) \<and>
   validatePhenoStoreURL parse (getenv ''PHENOSTORE_URL'') = Accepted"
  by (auto simp add: Initialize_def Let_def required_vars_def verdict_error_None [symmetric]
        split: option.splits sum.splits if_splits)

text \<open>
  Claim C9: \<^verbatim>\<open>Initialize\<close> returns an error and leaves the client as it was whenever one of
  the five required variables is empty, or the store URL does not parse to a URL with a
  scheme and a host, or its scheme is http and its host is none of localhost, 127.0.0.1
  and ::1. When it returns no error, the URL is an https URL or an http URL on one of
  these three hosts. Scheme and host are compared in lower case, as host names are.
\<close>

theorem Initialize_rejects:
  "((\<exists>v \<in> set required_vars. getenv v = []) \<or>
    (\<forall>u. parse (getenv ''PHENOSTORE_URL'') \<noteq> Inr u) \<or>
    (\<exists>u. parse (getenv ''PHENOSTORE_URL'') = Inr u \<and>
         (Scheme u = [] \<or> Host u = [] \<or>
          ToLower (Scheme u) = ''http'' \<and> ToLower (Hostname u) \<notin> loopback_hosts))
    \<longrightarrow> fst (Initialize getenv parse newClient a) \<noteq> None \<and>
        snd (Initialize getenv parse newClient a) = a) \<and>
   (fst (Initialize getenv parse newClient a) = None \<longrightarrow>
      (\<exists>u. parse (getenv ''PHENOSTORE_URL'') = Inr u \<and> Scheme u \<noteq> [] \<and> Host u \<noteq> [] \<and>
           (ToLower (Scheme u) = ''https'' \<or>
            ToLower (Scheme u) = ''http'' \<and> ToLower (Hostname u) \<in> loopback_hosts)))"
proof (intro conjI impI)
  assume ok: "fst (Initialize getenv parse newClient a) = None"
  then show "\<exists>u. parse (getenv ''PHENOSTORE_URL'') = Inr u \<and> Scheme u \<noteq> [] \<and> Host u \<noteq> [] \<and>
           (ToLower (Scheme u) = ''https'' \<or>
            ToLower (Scheme u) = ''http'' \<and> ToLower (Hostname u) \<in> loopback_hosts)"
    using Initialize_ok [OF ok] by (simp add: validate_Accepted)
next
  assume bad: "(\<exists>v \<in> set required_vars. getenv v = []) \<or>
    (\<forall>u. parse (getenv ''PHENOSTORE_URL'') \<noteq> Inr u) \<or>
    (\<exists>u. parse (getenv ''PHENOSTORE_URL'') = Inr u \<and>
         (Scheme u = [] \<or> Host u = [] \<or>
          ToLower (Scheme u) = ''http'' \<and> ToLower (Hostname u) \<notin> loopback_hosts))"
  have ne: "fst (Initialize getenv parse newClient a) \<noteq> None"
  proof
    assume ok: "fst (Initialize getenv parse newClient a) = None"
    from Initialize_ok [OF ok] obtain u where
      e: "\<forall>v \<in> set required_vars. getenv v \<noteq> []" and
      u: "parse (getenv ''PHENOSTORE_URL'') = Inr u" "Scheme u \<noteq> []" "Host u \<noteq> []"
         "ToLower (Scheme u) = ''https'' \<or>
          ToLower (Scheme u) = ''http'' \<and> ToLower (Hostname u) \<in> loopback_hosts"
      unfolding validate_Accepted by blast
    from bad e u show False
      by auto
  qed
  then show "fst (Initialize getenv parse newClient a) \<noteq> None" .
  from ne show "snd (Initialize getenv parse newClient a) = a"
    by (rule Initialize_error_keeps)
qed

theorem Initialize_rejects_witness:
  "Initialize (sample_env ''http://example.com'') sample_parse sample_newClient
     \<lparr>Client = None\<rparr> =
     (Some (Plain ''invalid PHENOSTORE_URL: must use https (http is only allowed for localhost)''),
      \<lparr>Client = None\<rparr>) \<and>
   Initialize (sample_env ''http://LocalHost:8080'') sample_parse sample_newClient
     \<lparr>Client = None\<rparr> =
     (None, \<lparr>Client = Some [''http://LocalHost:8080'', ''id'', ''secret'', ''tenant'', ''store'']\<rparr>)"
  using Initialize_rejects [of "sample_env ''http://example.com''" sample_parse
          sample_newClient "\<lparr>Client = None\<rparr>"]
        Initialize_rejects [of "sample_env ''http://LocalHost:8080''" sample_parse
          sample_newClient "\<lparr>Client = None\<rparr>"]
  by (simp add: Initialize_def sample_env_def sample_parse_def sample_newClient_def
        validatePhenoStoreURL_def ToLower_def lower_char_def Let_def)


section \<open>Properties of CompleteActivity\<close>

lemma build_options_index:
  "(l, i) \<in> set (build_options n acts) \<Longrightarrow>
   n \<le> i \<and> i - n < length acts \<and> as_map (acts ! (i - n)) \<noteq> None \<and>
   detail_of (acts ! (i - n)) \<noteq> None \<and> detail_status (acts ! (i - n)) \<noteq> ''completed''"
proof (induction acts arbitrary: n)
  case Nil
  then show ?case by simp
next
  case (Cons a acts)
  show ?case
  proof (cases "i = n")
    case True
    with Cons.prems show ?thesis
      using Cons.IH [of "Suc n"] by (auto split: if_splits)
  next
    case False
    with Cons.prems have "(l, i) \<in> set (build_options (Suc n) acts)"
      by (auto split: if_splits)
    from Cons.IH [OF this] have ih: "Suc n \<le> i" "i - Suc n < length acts"
      "as_map (acts ! (i - Suc n)) \<noteq> None" "detail_of (acts ! (i - Suc n)) \<noteq> None"
      "detail_status (acts ! (i - Suc n)) \<noteq> ''completed''"
      by simp_all
    from ih(1) have d: "i - n = Suc (i - Suc n)"
      by simp
    show ?thesis
      using ih unfolding d by simp
  qed
qed

lemma allDone_iff: "allDone acts \<longleftrightarrow> (\<forall>a \<in> set acts. detail_status a = ''completed'')"
  by (induction acts) auto

lemma map_of_set_key: "map_of (set_key k v kvs) = (map_of kvs)(k \<mapsto> v)"
  by (simp add: set_key_def update_conv')

lemma index_set_key:
  "index (Some (set_key k v kvs)) k' = (if k' = k then v else index (Some kvs) k')"
  by (simp add: index_def map_of_set_key)

lemma detail_status_marked:
  "detail_status
     (JObject (set_key ''detail'' (JObject (set_key ''status'' (JString ''completed'') detail)) act))
   = ''completed''"
  by (simp add: detail_status_def detail_of_def index_set_key)


lemma activities_of_set_activity:
  "activities_of (set_key ''activity'' (JArray xs) plan) = xs"
  by (simp add: activities_of_def index_set_key)

lemma activities_of_set_status:
  "activities_of (set_key ''status'' v plan) = activities_of plan"
  by (simp add: activities_of_def index_set_key)

lemma options_nonempty_activities:
  "build_options n acts \<noteq> [] \<Longrightarrow> acts \<noteq> []"
  by (cases acts) simp_all

text \<open>
  Claim C10: for an activity the menu offers, \<^verbatim>\<open>CompleteActivity\<close> sends an update (it
  does not panic) in which that activity's detail status is \<^verbatim>\<open>"completed"\<close> and the other
  activities are as they were. \<^verbatim>\<open>allDone\<close> holds exactly when every activity of the plan
  sent has detail status \<^verbatim>\<open>"completed"\<close>; then the top-level status sent is
  \<^verbatim>\<open>"completed"\<close>, and otherwise the top-level status field is the one the plan had.
\<close>

theorem completeActivity_closes_plan:
  assumes "i \<in> snd ` set (build_options 0 (activities_of plan))"
  shows "\<exists>plan' fin marked.
           completeActivity plan i = UpdateSent plan' fin \<and>
           activities_of plan' = (activities_of plan)[i := marked] \<and>
           detail_status marked = ''completed'' \<and>
           (fin \<longleftrightarrow> (\<forall>a \<in> set (activities_of plan'). detail_status a = ''completed'')) \<and>
           (fin \<longrightarrow> map_of plan' ''status'' = Some (JString ''completed'')) \<and>
           (\<not> fin \<longrightarrow> map_of plan' ''status'' = map_of plan ''status'')"
proof -
  let ?acts = "activities_of plan"
  from assms obtain l where l: "(l, i) \<in> set (build_options 0 ?acts)"
    by auto
  then have opts: "build_options 0 ?acts \<noteq> []"
    by auto
  then have ne: "?acts \<noteq> []"
    by (rule options_nonempty_activities)
  from build_options_index [OF l] have i: "i < length ?acts"
    and m: "as_map (?acts ! i) \<noteq> None" and dt: "detail_of (?acts ! i) \<noteq> None"
    by simp_all
  from m obtain act where act: "as_map (?acts ! i) = Some act"
    by auto
  from dt act obtain detail where detail: "as_map (index (Some act) ''detail'') = Some detail"
    by (auto simp add: detail_of_def)
  define marked where
    "marked = JObject (set_key ''detail''
                (JObject (set_key ''status'' (JString ''completed'') detail)) act)"
  define plan1 where "plan1 = set_key ''activity'' (JArray (?acts[i := marked])) plan"
  define fin where "fin = allDone (?acts[i := marked])"
  define plan' where
    "plan' = (if fin then set_key ''status'' (JString ''completed'') plan1 else plan1)"
  have c: "completeActivity plan i = UpdateSent plan' fin"
    using ne opts i act detail
    by (simp add: completeActivity_def Let_def plan'_def fin_def plan1_def marked_def)
  have a: "activities_of plan' = ?acts[i := marked]"
    by (simp add: plan'_def plan1_def activities_of_set_status activities_of_set_activity)
  have s: "detail_status marked = ''completed''"
    by (simp add: marked_def detail_status_marked)
  have f: "fin \<longleftrightarrow> (\<forall>a \<in> set (activities_of plan'). detail_status a = ''completed'')"
    by (simp add: a fin_def allDone_iff)
  have t: "fin \<longrightarrow> map_of plan' ''status'' = Some (JString ''completed'')"
    by (simp add: plan'_def map_of_set_key)
  have u: "\<not> fin \<longrightarrow> map_of plan' ''status'' = map_of plan ''status''"
    by (simp add: plan'_def plan1_def map_of_set_key)
  show ?thesis
    using c a s f t u by blast
qed

theorem completeActivity_closes_plan_witness:
  "1 \<in> snd ` set (build_options 0 (activities_of sample_plan)) \<and>
   completeActivity sample_plan 1 =
     UpdateSent
       [(''resourceType'', JString ''CarePlan''), (''id'', JString ''cp1''),
        (''status'', JString ''completed''),
        (''activity'', JArray [sample_activity ''walk'' ''completed'',
                              sample_activity ''diet'' ''completed''])]
       True \<and>
   1 \<in> snd ` set (build_options 0 (activities_of sample_plan_open)) \<and>
   (\<exists>p. completeActivity sample_plan_open 1 = UpdateSent p False \<and>
        map_of p ''status'' = Some (JString ''active''))"
  using completeActivity_closes_plan [of 1 sample_plan]
        completeActivity_closes_plan [of 1 sample_plan_open]
  by (simp add: sample_plan_def sample_plan_open_def sample_activity_def activities_of_def
        index_def detail_of_def detail_status_def completeActivity_def set_key_def Let_def)


end
